theory Spec2Isabelle
  imports Complex_Main "HOL-Library.Multiset"
begin

section \<open>Best-subset regression search (boston2.go)\<close>

text \<open>
  The program reads a table, and for every subset size from 4 up to the number of
  explanatory columns starts one goroutine that enumerates the feature subsets of that
  size (\<open>generateCombinations\<close>), scores each one (\<open>fitModel\<close>) and keeps the one with
  the smallest AIC. The main goroutine prints what the goroutines send.
\<close>

subsection \<open>float64\<close>

text \<open>
  A \<open>float64\<close> is a finite value, one of the two infinities, or NaN. Finite arithmetic is
  taken to be exact: rounding, overflow of finite results and the sign of zero are not
  modelled. The special values follow IEEE 754 and the documented special cases of Go's
  \<open>math.Pow\<close> and \<open>math.Log\<close>.
\<close>

datatype float64 = FVal real | PosInf | NegInf | NaN

fun fneg :: "float64 \<Rightarrow> float64" where
  "fneg (FVal a) = FVal (- a)"
| "fneg PosInf = NegInf"
| "fneg NegInf = PosInf"
| "fneg NaN = NaN"

fun fadd :: "float64 \<Rightarrow> float64 \<Rightarrow> float64" where
  "fadd NaN b = NaN"
| "fadd a NaN = NaN"
| "fadd PosInf NegInf = NaN"
| "fadd NegInf PosInf = NaN"
| "fadd PosInf b = PosInf"
| "fadd a PosInf = PosInf"
| "fadd NegInf b = NegInf"
| "fadd a NegInf = NegInf"
| "fadd (FVal a) (FVal b) = FVal (a + b)"

definition fsub :: "float64 \<Rightarrow> float64 \<Rightarrow> float64" where
  "fsub a b = fadd a (fneg b)"

text \<open>The sign of an infinite product: the infinity \<open>i\<close> itself or its negation.\<close>

definition signedInf :: "float64 \<Rightarrow> real \<Rightarrow> float64" where
  "signedInf i a = (if a = 0 then NaN else if 0 < a then i else fneg i)"

fun fmul :: "float64 \<Rightarrow> float64 \<Rightarrow> float64" where
  "fmul NaN b = NaN"
| "fmul a NaN = NaN"
| "fmul (FVal a) (FVal b) = FVal (a * b)"
| "fmul (FVal a) PosInf = signedInf PosInf a"
| "fmul (FVal a) NegInf = signedInf NegInf a"
| "fmul PosInf (FVal b) = signedInf PosInf b"
| "fmul NegInf (FVal b) = signedInf NegInf b"
| "fmul PosInf PosInf = PosInf"
| "fmul NegInf NegInf = PosInf"
| "fmul PosInf NegInf = NegInf"
| "fmul NegInf PosInf = NegInf"

text \<open>
  Division. Every divisor in the program is \<open>float64(len(xs))\<close>, so a zero divisor is
  the positive zero.
\<close>

fun fdiv :: "float64 \<Rightarrow> float64 \<Rightarrow> float64" where
  "fdiv NaN b = NaN"
| "fdiv a NaN = NaN"
| "fdiv (FVal a) (FVal b) =
     (if b = 0 then (if a = 0 then NaN else if 0 < a then PosInf else NegInf)
      else FVal (a / b))"
| "fdiv (FVal a) PosInf = FVal 0"
| "fdiv (FVal a) NegInf = FVal 0"
| "fdiv PosInf (FVal b) = (if 0 \<le> b then PosInf else NegInf)"
| "fdiv NegInf (FVal b) = (if 0 \<le> b then NegInf else PosInf)"
| "fdiv a b = NaN"

text \<open>\<open>math.Pow(x, 2)\<close>\<close>

fun fpow2 :: "float64 \<Rightarrow> float64" where
  "fpow2 (FVal a) = FVal (a * a)"
| "fpow2 PosInf = PosInf"
| "fpow2 NegInf = PosInf"
| "fpow2 NaN = NaN"

text \<open>\<open>math.Log\<close>: \<open>Log(0) = -Inf\<close>, \<open>Log(x < 0) = NaN\<close>, \<open>Log(+Inf) = +Inf\<close>.\<close>

fun flog :: "float64 \<Rightarrow> float64" where
  "flog (FVal a) = (if a < 0 then NaN else if a = 0 then NegInf else FVal (ln a))"
| "flog PosInf = PosInf"
| "flog NegInf = NaN"
| "flog NaN = NaN"

text \<open>The comparison \<open>a < b\<close>: false as soon as one side is NaN.\<close>

fun flt :: "float64 \<Rightarrow> float64 \<Rightarrow> bool" where
  "flt NaN b = False"
| "flt a NaN = False"
| "flt (FVal a) (FVal b) = (a < b)"
| "flt a PosInf = (a \<noteq> PosInf)"
| "flt NegInf b = (b \<noteq> NegInf)"
| "flt a b = False"

subsection \<open>Slices and panics\<close>

datatype panic = IndexOutOfRange

text \<open>\<open>xs[i]\<close>: a runtime panic when \<open>i\<close> is not an index of \<open>xs\<close>.\<close>

definition indexAt :: "'a list \<Rightarrow> int \<Rightarrow> panic + 'a" where
  "indexAt xs i =
     (if 0 \<le> i \<and> i < int (length xs) then Inr (xs ! nat i) else Inl IndexOutOfRange)"

subsection \<open>generateCombinations\<close>

text \<open>
  \<open>generateCombinationsHelper\<close> with its \<open>for\<close> loop (\<open>helperLoop\<close>, started at
  \<open>i = index\<close>). The slice behind \<open>*combinations\<close> is passed in and returned. The
  buffer \<open>combination\<close> is a value here: the source appends to it, recurses and cuts
  the last element off again, and every stored subset is a fresh copy. Go's \<open>int\<close>
  is modelled by \<open>int\<close>: \<open>i + 1\<close> is computed only for \<open>i < n\<close>, so it cannot wrap.
\<close>

function generateCombinationsHelper ::
    "int \<Rightarrow> int \<Rightarrow> int \<Rightarrow> int list \<Rightarrow> int list list \<Rightarrow> int list list"
  and helperLoop ::
    "int \<Rightarrow> int \<Rightarrow> int \<Rightarrow> int list \<Rightarrow> int list list \<Rightarrow> int list list"
where
  "generateCombinationsHelper n k index combination combinations =
     (if k = 0 then combinations @ [combination]
      else helperLoop n k index combination combinations)"
| "helperLoop n k i combination combinations =
     (if i < n
      then helperLoop n k (i + 1) combination
             (generateCombinationsHelper n (k - 1) (i + 1) (combination @ [i]) combinations)
      else combinations)"
  by pat_completeness auto
termination
  by (relation "measure (\<lambda>x. case x of
          Inl (n, k, index, c, cs) \<Rightarrow> 2 * nat (n - index) + 1
        | Inr (n, k, i, c, cs) \<Rightarrow> 2 * nat (n - i))") auto

declare generateCombinationsHelper.simps [simp del] helperLoop.simps [simp del]

definition generateCombinations :: "int \<Rightarrow> int \<Rightarrow> int list list" where
  "generateCombinations n k = generateCombinationsHelper n k 0 [] []"

text \<open>
  The reference enumeration used in the proofs: the \<open>k\<close>-element increasing sequences
  over the \<open>m\<close> integers from \<open>lo\<close> on, those starting with \<open>lo\<close> first.
\<close>

fun subsetsFrom :: "nat \<Rightarrow> nat \<Rightarrow> int \<Rightarrow> int list list" where
  "subsetsFrom m 0 lo = [[]]"
| "subsetsFrom 0 (Suc k) lo = []"
| "subsetsFrom (Suc m) (Suc k) lo =
     map ((#) lo) (subsetsFrom m k (lo + 1)) @ subsetsFrom m (Suc k) (lo + 1)"

text \<open>Strict lexicographic order on index sequences.\<close>

fun lexLess :: "int list \<Rightarrow> int list \<Rightarrow> bool" where
  "lexLess [] [] = False"
| "lexLess [] (y # ys) = True"
| "lexLess (x # xs) [] = False"
| "lexLess (x # xs) (y # ys) = (x < y \<or> (x = y \<and> lexLess xs ys))"

subsection \<open>fitModel\<close>

text \<open>
  The regression package (github.com/sajari/regression) is not part of the program. It is
  a parameter: given the selected indices (\<open>SetVar\<close>) and the data points in the order
  they were passed to \<open>Train\<close>, it yields what \<open>Predict\<close> returns after \<open>Run\<close>. Its
  calls are assumed to return. The errors returned by \<open>Run\<close> and \<open>Predict\<close> are
  discarded by the program, so they do not appear.
\<close>

type_synonym dataPoint = "float64 \<times> float64 list"

type_synonym regression = "int list \<Rightarrow> dataPoint list \<Rightarrow> float64 list \<Rightarrow> float64"

text \<open>
  A regression that predicts the same value whatever it has been trained on; it
  instantiates the parameter at concrete inputs.
\<close>

definition constRegression :: "float64 \<Rightarrow> regression" where
  "constRegression c = (\<lambda>features points vars. c)"

text \<open>Lines 136-139: the values \<open>row[idx]\<close> of one feature, over all rows.\<close>

fun featureColumn :: "float64 list list \<Rightarrow> int \<Rightarrow> panic + float64 list" where
  "featureColumn [] idx = Inr []"
| "featureColumn (row # rows) idx =
     (case indexAt row idx of
        Inl e \<Rightarrow> Inl e
      | Inr v \<Rightarrow> (case featureColumn rows idx of
                    Inl e \<Rightarrow> Inl e
                  | Inr x \<Rightarrow> Inr (v # x)))"

text \<open>Lines 131-141: \<open>xs\<close>, one entry per selected feature.\<close>

fun featureData :: "float64 list list \<Rightarrow> int list \<Rightarrow> panic + float64 list list" where
  "featureData data [] = Inr []"
| "featureData data (idx # features) =
     (case featureColumn data idx of
        Inl e \<Rightarrow> Inl e
      | Inr x \<Rightarrow> (case featureData data features of
                    Inl e \<Rightarrow> Inl e
                  | Inr xs \<Rightarrow> Inr (x # xs)))"

text \<open>Lines 144-146: the data points \<open>DataPoint(y[i], row)\<close> for \<open>i, row := range xs\<close>.\<close>

fun trainingPoints :: "float64 list \<Rightarrow> nat \<Rightarrow> float64 list list \<Rightarrow> panic + dataPoint list" where
  "trainingPoints y i [] = Inr []"
| "trainingPoints y i (row # xs) =
     (case indexAt y (int i) of
        Inl e \<Rightarrow> Inl e
      | Inr obs \<Rightarrow> (case trainingPoints y (Suc i) xs of
                      Inl e \<Rightarrow> Inl e
                    | Inr points \<Rightarrow> Inr ((obs, row) # points)))"

text \<open>Lines 152-155: \<open>f += math.Pow(y[i]-yPred, 2)\<close> for \<open>i, row := range xs\<close>.\<close>

fun squaredErrors ::
    "(float64 list \<Rightarrow> float64) \<Rightarrow> float64 list \<Rightarrow> nat \<Rightarrow> float64 list list \<Rightarrow> float64
      \<Rightarrow> panic + float64" where
  "squaredErrors predict y i [] f = Inr f"
| "squaredErrors predict y i (row # xs) f =
     (case indexAt y (int i) of
        Inl e \<Rightarrow> Inl e
      | Inr obs \<Rightarrow> squaredErrors predict y (Suc i) xs (fadd f (fpow2 (fsub obs (predict row)))))"

definition fitModel ::
    "regression \<Rightarrow> float64 list \<Rightarrow> int list \<Rightarrow> float64 list list \<Rightarrow> panic + (float64 \<times> float64)" where
  "fitModel lib y features data =
     (case featureData data features of
        Inl e \<Rightarrow> Inl e
      | Inr xs \<Rightarrow>
     (case trainingPoints y 0 xs of
        Inl e \<Rightarrow> Inl e
      | Inr points \<Rightarrow>
     (case squaredErrors (lib features points) y 0 xs (FVal 0) of
        Inl e \<Rightarrow> Inl e
      | Inr f \<Rightarrow>
          let mse = fdiv f (FVal (real (length xs)));
              aic = fadd (fmul (FVal (real (length xs))) (flog mse))
                         (fmul (FVal 2) (FVal (real (length features))))
          in Inr (mse, aic))))"

subsection \<open>The goroutine of one subset size\<close>

record result =
  Features :: "int list"
  AIC :: float64
  MSE :: float64

text \<open>
  Lines 80-88: the loop over the combinations, on the state
  \<open>(localBestAIC, localBestFeatures, localBestMSE)\<close>. A panic in \<open>fitModel\<close> ends it.
\<close>

fun searchLoop ::
    "regression \<Rightarrow> float64 list \<Rightarrow> float64 list list \<Rightarrow> int list list
      \<Rightarrow> float64 \<times> int list \<times> float64 \<Rightarrow> panic + (float64 \<times> int list \<times> float64)" where
  "searchLoop lib y data [] best = Inr best"
| "searchLoop lib y data (features # combinations) (localBestAIC, localBestFeatures, localBestMSE) =
     (case fitModel lib y features data of
        Inl e \<Rightarrow> Inl e
      | Inr (mse, aic) \<Rightarrow>
          searchLoop lib y data combinations
            (if flt aic localBestAIC then (aic, features, mse)
             else (localBestAIC, localBestFeatures, localBestMSE)))"

text \<open>
  Lines 75-91: the body of the goroutine, up to the value it sends. The nil slice
  \<open>localBestFeatures\<close> is the empty list.
\<close>

definition sizeWorker ::
    "regression \<Rightarrow> float64 list \<Rightarrow> float64 list list \<Rightarrow> int \<Rightarrow> int \<Rightarrow> panic + result" where
  "sizeWorker lib y data numExplanatory sz =
     (case searchLoop lib y data (generateCombinations numExplanatory sz) (PosInf, [], FVal 0) of
        Inl e \<Rightarrow> Inl e
      | Inr (localBestAIC, localBestFeatures, localBestMSE) \<Rightarrow>
          Inr \<lparr>Features = localBestFeatures, AIC = localBestAIC, MSE = localBestMSE\<rparr>)"

subsection \<open>main: the response column and the goroutines\<close>

text \<open>Lines 58-64: \<open>y\<close> and \<open>numExplanatory\<close> from the parsed table.\<close>

definition responseColumn :: "float64 list list \<Rightarrow> panic + (float64 list \<times> int)" where
  "responseColumn data =
     (case data of
        [] \<Rightarrow> Inl IndexOutOfRange
      | row0 # rest \<Rightarrow>
          (case featureColumn data (int (length row0) - 1) of
             Inl e \<Rightarrow> Inl e
           | Inr y \<Rightarrow> Inr (y, int (length row0) - 1)))"

text \<open>
  Lines 66-108 as a transition system. There is one goroutine per size in
  \<open>4..numExplanatory\<close>; the channels \<open>results\<close> and \<open>done\<close> are unbuffered, so a send
  and its receive are one step.
  \<^item> \<open>Running\<close>: the goroutine has not reached line 91 yet;
  \<^item> \<open>Sending r\<close>: it is blocked in \<open>results <- r\<close> (line 91);
  \<^item> \<open>Deferred p\<close>: it is blocked in the deferred \<open>done <- struct{}{}\<close> (line 73),
    after its send (\<open>p = False\<close>) or while a panic of \<open>fitModel\<close> unwinds (\<open>p = True\<close>);
  \<^item> \<open>Returned\<close>, \<open>Panicked\<close>: the deferred send has been received.
\<close>

datatype goroutine = Running | Sending result | Deferred bool | Returned | Panicked

text \<open>
  \<open>doneReceived\<close> counts the receptions \<open><-done\<close> of the goroutine of lines 96-101,
  \<open>resultsClosed\<close> is set by its \<open>close(results)\<close>; \<open>printed\<close> holds one entry per
  iteration of the loop of lines 104-108 (the three \<open>Printf\<close> calls for one received
  value), \<open>rangeEnded\<close> is set when that loop has ended; \<open>crashed\<close> is set when the
  runtime has stopped the program because of a panic.
\<close>

record coordinator =
  workers :: "int \<Rightarrow> goroutine"
  doneReceived :: nat
  resultsClosed :: bool
  printed :: "result list"
  rangeEnded :: bool
  crashed :: bool

definition initial :: coordinator where
  "initial = \<lparr>workers = (\<lambda>sz. Running), doneReceived = 0, resultsClosed = False,
              printed = [], rangeEnded = False, crashed = False\<rparr>"

text \<open>The number of iterations of \<open>for i := 4; i <= numExplanatory; i++\<close>.\<close>

definition sizeCount :: "int \<Rightarrow> nat" where
  "sizeCount numExplanatory = nat (numExplanatory - 3)"

inductive step :: "(int \<Rightarrow> panic + result) \<Rightarrow> int \<Rightarrow> coordinator \<Rightarrow> coordinator \<Rightarrow> bool"
  for compute :: "int \<Rightarrow> panic + result" and numExplanatory :: int
where
  computed:
    "\<not> crashed s \<Longrightarrow> 4 \<le> sz \<Longrightarrow> sz \<le> numExplanatory \<Longrightarrow> workers s sz = Running
      \<Longrightarrow> compute sz = Inr r
      \<Longrightarrow> step compute numExplanatory s (s\<lparr>workers := (workers s)(sz := Sending r)\<rparr>)"
| panicked:
    "\<not> crashed s \<Longrightarrow> 4 \<le> sz \<Longrightarrow> sz \<le> numExplanatory \<Longrightarrow> workers s sz = Running
      \<Longrightarrow> compute sz = Inl e
      \<Longrightarrow> step compute numExplanatory s (s\<lparr>workers := (workers s)(sz := Deferred True)\<rparr>)"
| received:
    "\<not> crashed s \<Longrightarrow> \<not> rangeEnded s \<Longrightarrow> workers s sz = Sending r
      \<Longrightarrow> step compute numExplanatory s
            (s\<lparr>workers := (workers s)(sz := Deferred False), printed := printed s @ [r]\<rparr>)"
| signalled:
    "\<not> crashed s \<Longrightarrow> doneReceived s < sizeCount numExplanatory \<Longrightarrow> workers s sz = Deferred p
      \<Longrightarrow> step compute numExplanatory s
            (s\<lparr>workers := (workers s)(sz := (if p then Panicked else Returned)),
               doneReceived := Suc (doneReceived s)\<rparr>)"
| crash:
    "\<not> crashed s \<Longrightarrow> workers s sz = Panicked
      \<Longrightarrow> step compute numExplanatory s (s\<lparr>crashed := True\<rparr>)"
| closed:
    "\<not> crashed s \<Longrightarrow> doneReceived s = sizeCount numExplanatory \<Longrightarrow> \<not> resultsClosed s
      \<Longrightarrow> step compute numExplanatory s (s\<lparr>resultsClosed := True\<rparr>)"
| ended:
    "\<not> crashed s \<Longrightarrow> resultsClosed s \<Longrightarrow> \<not> rangeEnded s
      \<Longrightarrow> step compute numExplanatory s (s\<lparr>rangeEnded := True\<rparr>)"

text \<open>The states the program can be in, for a regression package and a parsed table.\<close>

definition reachable :: "regression \<Rightarrow> float64 list list \<Rightarrow> coordinator \<Rightarrow> bool" where
  "reachable lib data s =
     (case responseColumn data of
        Inl e \<Rightarrow> False
      | Inr (y, numExplanatory) \<Rightarrow>
          rtranclp (step (sizeWorker lib y data numExplanatory) numExplanatory) initial s)"

text \<open>What a goroutine in state \<open>w\<close> has contributed to the output so far.\<close>

fun delivered :: "(panic + result) \<Rightarrow> goroutine \<Rightarrow> result multiset" where
  "delivered (Inr r) (Deferred False) = {#r#}"
| "delivered (Inr r) Returned = {#r#}"
| "delivered c w = {#}"

fun finished :: "goroutine \<Rightarrow> bool" where
  "finished Returned = True"
| "finished Panicked = True"
| "finished w = False"

subsection \<open>Concrete tables\<close>

text \<open>
  Parsed tables on which the functions are evaluated below; the last column is the
  response. \<open>linearTable\<close> has five rows and five explanatory columns, and its
  response is exactly \<open>2 * (x0 + x1 + x2 + x3)\<close>.
\<close>

definition linearTable :: "float64 list list" where
  "linearTable =
     [[FVal 1, FVal 0, FVal 0, FVal 0, FVal 0, FVal 2],
      [FVal 0, FVal 1, FVal 0, FVal 0, FVal 0, FVal 2],
      [FVal 0, FVal 0, FVal 1, FVal 0, FVal 0, FVal 2],
      [FVal 0, FVal 0, FVal 0, FVal 1, FVal 0, FVal 2],
      [FVal 1, FVal 1, FVal 0, FVal 0, FVal 1, FVal 4]]"

text \<open>Two rows whose response is 0.\<close>

definition flatTable :: "float64 list list" where
  "flatTable =
     [[FVal 1, FVal 2, FVal 0],
      [FVal 3, FVal 4, FVal 0]]"

text \<open>Five rows, five explanatory columns.\<close>

definition exampleTable :: "float64 list list" where
  "exampleTable =
     [[FVal 1, FVal 0, FVal 0, FVal 0, FVal 0, FVal 1],
      [FVal 0, FVal 1, FVal 0, FVal 0, FVal 0, FVal 1],
      [FVal 0, FVal 0, FVal 1, FVal 0, FVal 0, FVal 1],
      [FVal 0, FVal 0, FVal 0, FVal 1, FVal 0, FVal 1],
      [FVal 0, FVal 0, FVal 0, FVal 0, FVal 1, FVal 1]]"

text \<open>Four rows, four explanatory columns; columns 0 and 1 are the same.\<close>

definition duplicateTable :: "float64 list list" where
  "duplicateTable =
     [[FVal 1, FVal 1, FVal 0, FVal 0, FVal 1],
      [FVal 2, FVal 2, FVal 1, FVal 0, FVal 1],
      [FVal 3, FVal 3, FVal 0, FVal 1, FVal 1],
      [FVal 4, FVal 4, FVal 1, FVal 1, FVal 1]]"


text \<open>
  What the goroutines of sizes 4 and 5 send for \<open>exampleTable\<close> when every prediction
  is 0, and two states of that run: after the first value has been printed, and at the
  end.
\<close>

definition exampleBest4 :: result where
  "exampleBest4 = \<lparr>Features = [0, 1, 2, 3], AIC = FVal 8, MSE = FVal 1\<rparr>"

definition exampleBest5 :: result where
  "exampleBest5 = \<lparr>Features = [0, 1, 2, 3, 4], AIC = FVal 10, MSE = FVal 1\<rparr>"

definition exampleMid :: coordinator where
  "exampleMid = \<lparr>workers = (\<lambda>sz. Running)(4 := Deferred False), doneReceived = 0,
       resultsClosed = False, printed = [exampleBest4], rangeEnded = False, crashed = False\<rparr>"

definition exampleEnd :: coordinator where
  "exampleEnd = \<lparr>workers = (\<lambda>sz. Running)(4 := Returned, 5 := Returned), doneReceived = 2,
       resultsClosed = True, printed = [exampleBest4, exampleBest5], rangeEnded = True,
       crashed = False\<rparr>"


section \<open>Properties\<close>

subsection \<open>generateCombinations\<close>


lemma helper_subsetsFrom:
  "0 \<le> k \<Longrightarrow> generateCombinationsHelper n k index c out
      = out @ map ((@) c) (subsetsFrom (nat (n - index)) (nat k) index)"
  "1 \<le> k \<Longrightarrow> helperLoop n k i c out
      = out @ map ((@) c) (subsetsFrom (nat (n - i)) (nat k) i)"
proof (induction n k index c out and n k i c out rule: generateCombinationsHelper_helperLoop.induct)
  case (1 n k index combination combinations)
  show ?case
  proof (cases "k = 0")
    case True
    then show ?thesis by (simp add: generateCombinationsHelper.simps)
  next
    case False
    with 1 show ?thesis by (simp add: generateCombinationsHelper.simps)
  qed
next
  case (2 n k i combination combinations)
  show ?case
  proof (cases "i < n")
    case False
    with 2(3) obtain k' where "nat k = Suc k'" by (cases "nat k") auto
    with False show ?thesis by (simp add: helperLoop.simps)
  next
    case True
    from 2(3) obtain k' where k': "nat k = Suc k'" "nat (k - 1) = k'" by (cases "nat k") auto
    from True obtain m where m: "nat (n - i) = Suc m" "nat (n - (i + 1)) = m"
      by (cases "nat (n - i)") auto
    have inner: "generateCombinationsHelper n (k - 1) (i + 1) (combination @ [i]) combinations
        = combinations @ map ((@) (combination @ [i])) (subsetsFrom m k' (i + 1))"
      using 2(1)[OF True] 2(3) k' m by simp
    have rest: "helperLoop n k (i + 1) combination
          (generateCombinationsHelper n (k - 1) (i + 1) (combination @ [i]) combinations)
        = generateCombinationsHelper n (k - 1) (i + 1) (combination @ [i]) combinations
          @ map ((@) combination) (subsetsFrom m (Suc k') (i + 1))"
      using 2(2)[OF True 2(3)] k' m by simp
    show ?thesis
      using True inner rest k' m by (simp add: helperLoop.simps[of n k i])
  qed
qed

lemma generateCombinations_subsetsFrom:
  "0 \<le> k \<Longrightarrow> generateCombinations n k = subsetsFrom (nat n) (nat k) 0"
proof -
  have "map ((@) []) cs = cs" for cs :: "int list list"
    by (induction cs) auto
  then show "0 \<le> k \<Longrightarrow> generateCombinations n k = subsetsFrom (nat n) (nat k) 0"
    by (simp add: generateCombinations_def helper_subsetsFrom)
qed


lemma length_subsetsFrom: "length (subsetsFrom m k lo) = m choose k"
  by (induction m k lo rule: subsetsFrom.induct) auto

lemma subsetsFrom_member:
  "c \<in> set (subsetsFrom m k lo) \<Longrightarrow>
     length c = k \<and> (\<forall>x \<in> set c. lo \<le> x \<and> x < lo + int m) \<and> sorted_wrt (<) c"
proof (induction m k lo arbitrary: c rule: subsetsFrom.induct)
  case (1 m lo)
  then show ?case by simp
next
  case (2 k lo)
  then show ?case by simp
next
  case (3 m k lo)
  from 3(3) consider c' where "c = lo # c'" "c' \<in> set (subsetsFrom m k (lo + 1))"
    | "c \<in> set (subsetsFrom m (Suc k) (lo + 1))" by auto
  then show ?case
  proof cases
    case 1
    from 3(1)[OF 1(2)] 1(1) show ?thesis by fastforce
  next
    case 2
    from 3(2)[OF 2] show ?thesis by fastforce
  qed
qed

lemma subsetsFrom_complete:
  "length c = k \<Longrightarrow> \<forall>x \<in> set c. lo \<le> x \<and> x < lo + int m \<Longrightarrow> sorted_wrt (<) c
     \<Longrightarrow> c \<in> set (subsetsFrom m k lo)"
proof (induction m k lo arbitrary: c rule: subsetsFrom.induct)
  case (1 m lo)
  then show ?case by simp
next
  case (2 k lo)
  then show ?case by (cases c) auto
next
  case (3 m k lo)
  from 3(3) obtain x c' where c: "c = x # c'" "length c' = k" by (cases c) auto
  show ?case
  proof (cases "x = lo")
    case True
    have "\<forall>y \<in> set c'. lo + 1 \<le> y \<and> y < lo + 1 + int m"
      using 3(4,5) c True by fastforce
    moreover have "sorted_wrt (<) c'" using 3(5) c by simp
    ultimately have "c' \<in> set (subsetsFrom m k (lo + 1))"
      using 3(1) c(2) by blast
    then show ?thesis using c True by simp
  next
    case False
    have "\<forall>y \<in> set c. lo + 1 \<le> y \<and> y < lo + 1 + int m"
      using 3(4,5) c False by fastforce
    then have "c \<in> set (subsetsFrom m (Suc k) (lo + 1))"
      using 3(2) 3(3) 3(5) by blast
    then show ?thesis by simp
  qed
qed

lemma lexLess_irrefl: "\<not> lexLess c c"
  by (induction c) auto

lemma subsetsFrom_lex: "sorted_wrt lexLess (subsetsFrom m k lo)"
proof (induction m k lo rule: subsetsFrom.induct)
  case (1 m lo)
  then show ?case by simp
next
  case (2 k lo)
  then show ?case by simp
next
  case (3 m k lo)
  have cross: "lexLess (lo # a) b" if "b \<in> set (subsetsFrom m (Suc k) (lo + 1))" for a b
  proof -
    from subsetsFrom_member[OF that] obtain y b' where "b = y # b'" "lo + 1 \<le> y"
      by (cases b) auto
    then show ?thesis by simp
  qed
  show ?case
    using 3 cross by (auto simp: sorted_wrt_append sorted_wrt_map)
qed

lemma sorted_lexLess_distinct: "sorted_wrt lexLess cs \<Longrightarrow> distinct cs"
  by (induction cs) (auto simp: lexLess_irrefl)


lemma combinations44: "generateCombinations 4 4 = [[0, 1, 2, 3]]"
  by (simp add: generateCombinations_def generateCombinationsHelper.simps helperLoop.simps)

lemma combinations54:
  "generateCombinations 5 4 = [[0, 1, 2, 3], [0, 1, 2, 4], [0, 1, 3, 4], [0, 2, 3, 4], [1, 2, 3, 4]]"
  by (simp add: generateCombinations_def generateCombinationsHelper.simps helperLoop.simps)

lemma combinations55: "generateCombinations 5 5 = [[0, 1, 2, 3, 4]]"
  by (simp add: generateCombinations_def generateCombinationsHelper.simps helperLoop.simps)

text \<open>
  C4. For \<open>n \<ge> 1\<close> and \<open>1 \<le> k \<le> n\<close>, \<open>generateCombinations n k\<close> has exactly
  \<open>C(n, k)\<close> entries; each entry has length \<open>k\<close>, its elements lie in \<open>[0, n)\<close> and are
  strictly increasing (so without duplicates); no entry occurs twice; the entries come in
  lexicographic order; and every strictly increasing \<open>k\<close>-sequence over \<open>[0, n)\<close> is one
  of them.
\<close>

theorem generateCombinations_enumerates:
  assumes "1 \<le> n" and "1 \<le> k" and "k \<le> n"
  shows "length (generateCombinations n k) = nat n choose nat k
       \<and> (\<forall>c \<in> set (generateCombinations n k).
             length c = nat k \<and> (\<forall>x \<in> set c. 0 \<le> x \<and> x < n) \<and> sorted_wrt (<) c \<and> distinct c)
       \<and> distinct (generateCombinations n k)
       \<and> sorted_wrt lexLess (generateCombinations n k)
       \<and> set (generateCombinations n k)
           = {c. length c = nat k \<and> (\<forall>x \<in> set c. 0 \<le> x \<and> x < n) \<and> sorted_wrt (<) c}"
proof -
  have g: "generateCombinations n k = subsetsFrom (nat n) (nat k) 0"
    using assms by (simp add: generateCombinations_subsetsFrom)
  have mem: "length c = nat k \<and> (\<forall>x \<in> set c. 0 \<le> x \<and> x < n) \<and> sorted_wrt (<) c"
    if "c \<in> set (generateCombinations n k)" for c
    using subsetsFrom_member[of c "nat n" "nat k" 0] that assms g by auto
  have dis: "distinct c" if "sorted_wrt (<) c" for c :: "int list"
    using that by (simp add: strict_sorted_iff)
  have compl: "c \<in> set (generateCombinations n k)"
    if "length c = nat k" "\<forall>x \<in> set c. 0 \<le> x \<and> x < n" "sorted_wrt (<) c" for c
    using subsetsFrom_complete[of c "nat k" 0 "nat n"] that assms g by auto
  show ?thesis
    using mem dis compl
    by (auto simp: g length_subsetsFrom subsetsFrom_lex sorted_lexLess_distinct[OF subsetsFrom_lex])
qed

theorem generateCombinations_enumerates_witness:
  "(1::int) \<le> 4 \<and> (1::int) \<le> 2 \<and> (2::int) \<le> 4
   \<and> generateCombinations 4 2 = [[0, 1], [0, 2], [0, 3], [1, 2], [1, 3], [2, 3]]
   \<and> length (generateCombinations 4 2) = nat 4 choose nat 2
   \<and> distinct (generateCombinations 4 2)
   \<and> sorted_wrt lexLess (generateCombinations 4 2)"
proof -
  have "generateCombinations 4 2 = [[0, 1], [0, 2], [0, 3], [1, 2], [1, 3], [2, 3]]"
    by (simp add: generateCombinations_def generateCombinationsHelper.simps helperLoop.simps)
  then show ?thesis
    using generateCombinations_enumerates[of 4 2] by simp
qed




subsection \<open>fitModel\<close>

lemma featureColumn_Inr:
  "\<forall>row \<in> set data. 0 \<le> idx \<and> idx < int (length row)
    \<Longrightarrow> featureColumn data idx = Inr (map (\<lambda>row. row ! nat idx) data)"
  by (induction data) (auto simp: indexAt_def)

lemma featureData_Inr:
  "\<forall>idx \<in> set features. \<forall>row \<in> set data. 0 \<le> idx \<and> idx < int (length row)
    \<Longrightarrow> featureData data features
          = Inr (map (\<lambda>idx. map (\<lambda>row. row ! nat idx) data) features)"
  by (induction features) (auto simp: featureColumn_Inr)

lemma featureData_length:
  "featureData data features = Inr xs \<Longrightarrow> length xs = length features"
  by (induction features arbitrary: xs) (auto split: sum.splits)

lemma trainingPoints_Inr:
  "i + length xs \<le> length y \<Longrightarrow> \<exists>points. trainingPoints y i xs = Inr points"
proof (induction xs arbitrary: i)
  case Nil
  then show ?case by simp
next
  case (Cons row xs)
  then have "Suc i + length xs \<le> length y" by simp
  from Cons.IH[OF this] obtain points where "trainingPoints y (Suc i) xs = Inr points" ..
  with Cons.prems show ?case by (simp add: indexAt_def)
qed

lemma squaredErrors_Inr:
  "i + length xs \<le> length y \<Longrightarrow> \<exists>f'. squaredErrors predict y i xs f = Inr f'"
proof (induction xs arbitrary: i f)
  case Nil
  then show ?case by simp
next
  case (Cons row xs)
  then have "Suc i + length xs \<le> length y" by simp
  from Cons.IH[OF this] Cons.prems show ?case by (simp add: indexAt_def)
qed

lemma aic_NegInf_iff:
  assumes "mse = fdiv f (FVal (real k))"
  shows "fadd (fmul (FVal (real k)) (flog mse)) (FVal (2 * real k)) = NegInf \<longleftrightarrow> mse = FVal 0"
proof (cases "k = 0")
  case True
  with assms show ?thesis by (cases f) (auto simp: signedInf_def)
next
  case False
  then have "0 < real k" by simp
  then show ?thesis
    by (cases mse) (auto simp: signedInf_def)
qed

lemma linearTable_response:
  "responseColumn linearTable = Inr ([FVal 2, FVal 2, FVal 2, FVal 2, FVal 4], 5)"
  by (simp add: responseColumn_def linearTable_def indexAt_def)

text \<open>
  C1. The claim: \<open>fitModel\<close> returns the mean, over the \<open>N\<close> rows of the dataset, of
  the squared residuals of a fit whose design matrix has one row per dataset row and one
  column per selected feature. The code builds \<open>xs\<close> with one entry per selected
  feature, each holding that feature's \<open>N\<close> values, and then ranges over \<open>xs\<close> as if
  its entries were the rows. On \<open>linearTable\<close> (\<open>N = 5\<close>) with the features
  \<open>[0, 1, 2, 3]\<close>, the first subset the goroutine of size 4 tries, the package is
  trained with four data points of five variables each (the four columns, paired with the
  first four responses), four squared errors are added, and the sum is divided by 4; the
  fifth response is never read. This holds whatever the regression package computes.
  With predictions 0 the result is 4, while the response is exactly
  \<open>2 * (x0 + x1 + x2 + x3)\<close>.
\<close>

theorem fitModel_mse_ranges_over_features:
  "responseColumn linearTable = Inr ([FVal 2, FVal 2, FVal 2, FVal 2, FVal 4], 5)
   \<and> length linearTable = 5
   \<and> generateCombinations 5 4 ! 0 = [0, 1, 2, 3]
   \<and> map_sum id fst
         (fitModel lib [FVal 2, FVal 2, FVal 2, FVal 2, FVal 4] [0, 1, 2, 3] linearTable)
       = (let predict = lib [0, 1, 2, 3]
                          [(FVal 2, [FVal 1, FVal 0, FVal 0, FVal 0, FVal 1]),
                           (FVal 2, [FVal 0, FVal 1, FVal 0, FVal 0, FVal 1]),
                           (FVal 2, [FVal 0, FVal 0, FVal 1, FVal 0, FVal 0]),
                           (FVal 2, [FVal 0, FVal 0, FVal 0, FVal 1, FVal 0])];
              e0 = fpow2 (fsub (FVal 2) (predict [FVal 1, FVal 0, FVal 0, FVal 0, FVal 1]));
              e1 = fpow2 (fsub (FVal 2) (predict [FVal 0, FVal 1, FVal 0, FVal 0, FVal 1]));
              e2 = fpow2 (fsub (FVal 2) (predict [FVal 0, FVal 0, FVal 1, FVal 0, FVal 0]));
              e3 = fpow2 (fsub (FVal 2) (predict [FVal 0, FVal 0, FVal 0, FVal 1, FVal 0]))
          in Inr (fdiv (fadd (fadd (fadd (fadd (FVal 0) e0) e1) e2) e3) (FVal 4)))
   \<and> map_sum id fst
         (fitModel (constRegression (FVal 0)) [FVal 2, FVal 2, FVal 2, FVal 2, FVal 4]
            [0, 1, 2, 3] linearTable)
       = Inr (FVal 4)"
proof -
  have general: "map_sum id fst
         (fitModel lib [FVal 2, FVal 2, FVal 2, FVal 2, FVal 4] [0, 1, 2, 3] linearTable)
       = (let predict = lib [0, 1, 2, 3]
                          [(FVal 2, [FVal 1, FVal 0, FVal 0, FVal 0, FVal 1]),
                           (FVal 2, [FVal 0, FVal 1, FVal 0, FVal 0, FVal 1]),
                           (FVal 2, [FVal 0, FVal 0, FVal 1, FVal 0, FVal 0]),
                           (FVal 2, [FVal 0, FVal 0, FVal 0, FVal 1, FVal 0])];
              e0 = fpow2 (fsub (FVal 2) (predict [FVal 1, FVal 0, FVal 0, FVal 0, FVal 1]));
              e1 = fpow2 (fsub (FVal 2) (predict [FVal 0, FVal 1, FVal 0, FVal 0, FVal 1]));
              e2 = fpow2 (fsub (FVal 2) (predict [FVal 0, FVal 0, FVal 1, FVal 0, FVal 0]));
              e3 = fpow2 (fsub (FVal 2) (predict [FVal 0, FVal 0, FVal 0, FVal 1, FVal 0]))
          in Inr (fdiv (fadd (fadd (fadd (fadd (FVal 0) e0) e1) e2) e3) (FVal 4)))" for lib
    by (simp add: fitModel_def linearTable_def indexAt_def Let_def)
  have zero: "map_sum id fst
         (fitModel (constRegression (FVal 0)) [FVal 2, FVal 2, FVal 2, FVal 2, FVal 4]
            [0, 1, 2, 3] linearTable)
       = Inr (FVal 4)"
    by (simp add: general Let_def constRegression_def fsub_def)
  have rows: "length linearTable = 5" by (simp add: linearTable_def)
  have first: "generateCombinations 5 4 ! 0 = [0, 1, 2, 3]" by (simp add: combinations54)
  from linearTable_response rows first general[of lib] zero show ?thesis
    by (simp only: simp_thms)
qed

text \<open>
  C2. The claim: \<open>AIC = N * ln(MSE) + 2 * k\<close> with \<open>N\<close> the number of dataset rows.
  The code multiplies \<open>ln(MSE)\<close> by \<open>len(xs)\<close>, which is the number of selected
  features: on \<open>linearTable\<close> (\<open>N = 5\<close>) with the features \<open>[0, 1, 2, 3]\<close>
  (\<open>k = 4\<close>) the factor is 4, whatever the regression package computes; with
  predictions 0 the result is \<open>4 * ln 4 + 8\<close> and not \<open>5 * ln 4 + 8\<close>.
\<close>

theorem fitModel_aic_multiplies_by_features:
  "length linearTable = 5
   \<and> (case fitModel lib [FVal 2, FVal 2, FVal 2, FVal 2, FVal 4] [0, 1, 2, 3] linearTable of
         Inl e \<Rightarrow> False
       | Inr (mse, aic) \<Rightarrow> aic = fadd (fmul (FVal 4) (flog mse)) (FVal 8))
   \<and> fitModel (constRegression (FVal 0)) [FVal 2, FVal 2, FVal 2, FVal 2, FVal 4]
         [0, 1, 2, 3] linearTable
       = Inr (FVal 4, FVal (4 * ln 4 + 8))
   \<and> FVal (4 * ln 4 + 8) \<noteq> FVal (5 * ln 4 + 8)"
proof -
  have a: "(case fitModel lib [FVal 2, FVal 2, FVal 2, FVal 2, FVal 4] [0, 1, 2, 3] linearTable of
         Inl e \<Rightarrow> False
       | Inr (mse, aic) \<Rightarrow> aic = fadd (fmul (FVal 4) (flog mse)) (FVal 8))"
    by (simp add: fitModel_def linearTable_def indexAt_def Let_def)
  have b: "fitModel (constRegression (FVal 0)) [FVal 2, FVal 2, FVal 2, FVal 2, FVal 4]
         [0, 1, 2, 3] linearTable
       = Inr (FVal 4, FVal (4 * ln 4 + 8))"
    by (simp add: fitModel_def linearTable_def indexAt_def Let_def constRegression_def fsub_def)
  have "ln 4 \<noteq> (0::real)" by simp
  then have c: "FVal (4 * ln 4 + 8) \<noteq> FVal (5 * ln 4 + 8)" by simp
  have rows: "length linearTable = 5" by (simp add: linearTable_def)
  from rows a b c show ?thesis by (simp only: simp_thms)
qed

text \<open>
  C7. Once the squared errors have been added up (line 155), \<open>fitModel\<close> returns: the
  MSE and an AIC, and the AIC is \<open>-Inf\<close> exactly when the MSE is 0.
\<close>

theorem fitModel_degenerate:
  assumes "featureData data features = Inr xs"
    and "trainingPoints y 0 xs = Inr points"
    and "squaredErrors (lib features points) y 0 xs (FVal 0) = Inr f"
  shows "\<exists>aic. fitModel lib y features data = Inr (fdiv f (FVal (real (length xs))), aic)
            \<and> (aic = NegInf \<longleftrightarrow> fdiv f (FVal (real (length xs))) = FVal 0)"
proof -
  have len: "length features = length xs"
    using featureData_length[OF assms(1)] by simp
  have "fitModel lib y features data
      = Inr (fdiv f (FVal (real (length xs))),
             fadd (fmul (FVal (real (length xs))) (flog (fdiv f (FVal (real (length xs))))))
                  (FVal (2 * real (length xs))))"
    using assms len by (simp add: fitModel_def Let_def)
  then show ?thesis
    using aic_NegInf_iff[of "fdiv f (FVal (real (length xs)))" f "length xs", OF refl] by simp
qed

theorem fitModel_degenerate_witness:
  "featureData flatTable [0, 1] = Inr [[FVal 1, FVal 3], [FVal 2, FVal 4]]
   \<and> fitModel (constRegression (FVal 0)) [FVal 0, FVal 0] [0, 1] flatTable = Inr (FVal 0, NegInf)"
proof -
  let ?xs = "[[FVal 1, FVal 3], [FVal 2, FVal 4]]"
  let ?points = "[(FVal 0, [FVal 1, FVal 3]), (FVal 0, [FVal 2, FVal 4])]"
  have a: "featureData flatTable [0, 1] = Inr ?xs"
    by (simp add: flatTable_def indexAt_def)
  have b: "trainingPoints [FVal 0, FVal 0] 0 ?xs = Inr ?points"
    by (simp add: indexAt_def)
  have c: "squaredErrors (constRegression (FVal 0) [0, 1] ?points) [FVal 0, FVal 0] 0 ?xs (FVal 0)
            = Inr (FVal 0)"
    by (simp add: indexAt_def constRegression_def fsub_def)
  from fitModel_degenerate[of flatTable "[0, 1]" ?xs "[FVal 0, FVal 0]" ?points
      "constRegression (FVal 0)" "FVal 0", OF a b c] a
  show ?thesis by auto
qed

text \<open>
  C5, as stated: a subset whose design matrix is rank-deficient makes the fit fail with
  \<open>SingularModel\<close>, and the goroutine leaves it out of the comparison. In
  \<open>duplicateTable\<close> columns 0 and 1 are the same, yet \<open>fitModel\<close> returns an MSE and
  an AIC for the subset \<open>[0, 1, 2, 3]\<close>, and the goroutine of size 4 sends that very
  subset as its best.
\<close>

theorem singular_subset_counterexample:
  "responseColumn duplicateTable = Inr ([FVal 1, FVal 1, FVal 1, FVal 1], 4)
   \<and> featureColumn duplicateTable 0 = featureColumn duplicateTable 1
   \<and> fitModel (constRegression (FVal 0)) [FVal 1, FVal 1, FVal 1, FVal 1] [0, 1, 2, 3] duplicateTable
       = Inr (FVal 1, FVal 8)
   \<and> sizeWorker (constRegression (FVal 0)) [FVal 1, FVal 1, FVal 1, FVal 1] duplicateTable 4 4
       = Inr \<lparr>Features = [0, 1, 2, 3], AIC = FVal 8, MSE = FVal 1\<rparr>"
proof -
  have fit: "fitModel (constRegression (FVal 0)) [FVal 1, FVal 1, FVal 1, FVal 1] [0, 1, 2, 3]
               duplicateTable = Inr (FVal 1, FVal 8)"
    by (simp add: fitModel_def duplicateTable_def indexAt_def Let_def constRegression_def fsub_def)
  have "responseColumn duplicateTable = Inr ([FVal 1, FVal 1, FVal 1, FVal 1], 4)"
    by (simp add: responseColumn_def duplicateTable_def indexAt_def)
  moreover have "featureColumn duplicateTable 0 = featureColumn duplicateTable 1"
    by (simp add: duplicateTable_def indexAt_def)
  moreover have "sizeWorker (constRegression (FVal 0)) [FVal 1, FVal 1, FVal 1, FVal 1]
                   duplicateTable 4 4
       = Inr \<lparr>Features = [0, 1, 2, 3], AIC = FVal 8, MSE = FVal 1\<rparr>"
    by (simp add: sizeWorker_def combinations44 fit)
  ultimately show ?thesis using fit by simp
qed

text \<open>
  C5, amended. \<open>fitModel\<close> has no failure for a singular model: for every feature
  subset, rank-deficient or not, whose indices are columns of every row and which has no
  more entries than there are response values, it returns an MSE and an AIC, and the
  goroutine compares that AIC with its running best as it does for any other subset: the
  subset becomes the running best when its AIC is strictly smaller, and is passed over
  otherwise.
\<close>

theorem fitModel_never_singular:
  assumes "\<forall>idx \<in> set features. \<forall>row \<in> set data. 0 \<le> idx \<and> idx < int (length row)"
    and "length features \<le> length y"
  shows "\<exists>mse aic. fitModel lib y features data = Inr (mse, aic)
          \<and> searchLoop lib y data [features] (bestAIC, bestFeatures, bestMSE)
              = Inr (if flt aic bestAIC then (aic, features, mse)
                     else (bestAIC, bestFeatures, bestMSE))"
proof -
  let ?xs = "map (\<lambda>idx. map (\<lambda>row. row ! nat idx) data) features"
  have xs: "featureData data features = Inr ?xs"
    using assms(1) by (rule featureData_Inr)
  have len: "0 + length ?xs \<le> length y" using assms(2) by simp
  from trainingPoints_Inr[OF len] obtain points where
    p: "trainingPoints y 0 ?xs = Inr points" ..
  from squaredErrors_Inr[OF len] obtain f where
    f: "squaredErrors (lib features points) y 0 ?xs (FVal 0) = Inr f" ..
  show ?thesis
    using xs p f by (simp add: fitModel_def Let_def)
qed

theorem fitModel_never_singular_witness:
  "length [0, 1, 2, 3 :: int] \<le> length [FVal 1, FVal 1, FVal 1, FVal 1]
   \<and> (\<exists>mse aic. fitModel (constRegression (FVal 0)) [FVal 1, FVal 1, FVal 1, FVal 1]
                    [0, 1, 2, 3] duplicateTable = Inr (mse, aic)
          \<and> searchLoop (constRegression (FVal 0)) [FVal 1, FVal 1, FVal 1, FVal 1] duplicateTable
                [[0, 1, 2, 3]] (PosInf, [], FVal 0)
              = Inr (if flt aic PosInf then (aic, [0, 1, 2, 3], mse) else (PosInf, [], FVal 0)))"
proof -
  have "\<forall>idx \<in> set [0, 1, 2, 3 :: int]. \<forall>row \<in> set duplicateTable.
          0 \<le> idx \<and> idx < int (length row)"
    by (simp add: duplicateTable_def)
  moreover have "length [0, 1, 2, 3 :: int] \<le> length [FVal 1, FVal 1, FVal 1, FVal 1]"
    by simp
  ultimately show ?thesis
    using fitModel_never_singular[of "[0, 1, 2, 3]" duplicateTable
        "[FVal 1, FVal 1, FVal 1, FVal 1]" "constRegression (FVal 0)" PosInf "[]" "FVal 0"]
    by blast
qed

subsection \<open>The search of one size\<close>






lemma exampleTable_response:
  "responseColumn exampleTable = Inr ([FVal 1, FVal 1, FVal 1, FVal 1, FVal 1], 5)"
  by (simp add: responseColumn_def exampleTable_def indexAt_def)


lemma exampleTable_worker4:
  "sizeWorker (constRegression (FVal 0)) [FVal 1, FVal 1, FVal 1, FVal 1, FVal 1] exampleTable 5 4
     = Inr exampleBest4"
  by (simp add: sizeWorker_def combinations54 fitModel_def exampleTable_def indexAt_def
        constRegression_def fsub_def Let_def exampleBest4_def exampleBest5_def)

lemma exampleTable_worker5:
  "sizeWorker (constRegression (FVal 0)) [FVal 1, FVal 1, FVal 1, FVal 1, FVal 1] exampleTable 5 5
     = Inr exampleBest5"
  by (simp add: sizeWorker_def combinations55 fitModel_def exampleTable_def indexAt_def
        constRegression_def fsub_def Let_def exampleBest4_def exampleBest5_def)



subsection \<open>The goroutines and the loop over the results\<close>

lemma workers_facts:
  assumes "rtranclp (step c n) initial s"
  shows "(\<forall>sz. \<not> (4 \<le> sz \<and> sz \<le> n) \<longrightarrow> workers s sz = Running)
       \<and> (\<forall>sz r. workers s sz = Sending r \<longrightarrow> c sz = Inr r)
       \<and> (\<forall>sz. workers s sz = Deferred False \<or> workers s sz = Returned \<longrightarrow> (\<exists>r. c sz = Inr r))
       \<and> (\<forall>sz. workers s sz = Deferred True \<or> workers s sz = Panicked \<longrightarrow> (\<exists>e. c sz = Inl e))"
  using assms
proof (induction rule: rtranclp_induct)
  case base
  then show ?case by (simp add: initial_def)
next
  case (step s s')
  from step.hyps(2) step.IH show ?case
    by (cases rule: step.cases) (auto split: if_splits)
qed

lemma finished_count:
  assumes "rtranclp (step c n) initial s"
  shows "doneReceived s = card {sz \<in> {4..n}. finished (workers s sz)}"
  using assms
proof (induction rule: rtranclp_induct)
  case base
  then show ?case by (simp add: initial_def)
next
  case (step s s')
  note facts = workers_facts[OF step.hyps(1)]
  from step.hyps(2) show ?case
  proof (cases rule: step.cases)
    case (signalled sz p)
    let ?F = "{x \<in> {4..n}. finished (workers s x)}"
    from facts signalled(4) have inS: "sz \<in> {4..n}" by (cases "4 \<le> sz \<and> sz \<le> n") auto
    have notin: "sz \<notin> ?F" using signalled by simp
    have fin: "finite ?F" by (rule finite_subset[of _ "{4..n}"]) auto
    have "{x \<in> {4..n}. finished (workers s' x)} = insert sz ?F"
      using signalled inS by (auto split: if_splits)
    then have "card {x \<in> {4..n}. finished (workers s' x)} = Suc (card ?F)"
      using card_insert_disjoint[OF fin notin] by (simp only:)
    moreover have "doneReceived s' = Suc (doneReceived s)" using signalled by simp
    ultimately show ?thesis using step.IH by simp
  next
    case (computed sz r)
    have "{x \<in> {4..n}. finished (workers s' x)} = {x \<in> {4..n}. finished (workers s x)}"
      using computed by (auto split: if_splits)
    then show ?thesis using step.IH computed by simp
  next
    case (panicked sz e)
    have "{x \<in> {4..n}. finished (workers s' x)} = {x \<in> {4..n}. finished (workers s x)}"
      using panicked by (auto split: if_splits)
    then show ?thesis using step.IH panicked by simp
  next
    case (received sz r)
    have "{x \<in> {4..n}. finished (workers s' x)} = {x \<in> {4..n}. finished (workers s x)}"
      using received by (auto split: if_splits)
    then show ?thesis using step.IH received by simp
  qed (use step.IH in auto)
qed

lemma closed_facts:
  assumes "rtranclp (step c n) initial s"
  shows "(resultsClosed s \<longrightarrow> doneReceived s = sizeCount n) \<and> (rangeEnded s \<longrightarrow> resultsClosed s)"
  using assms
proof (induction rule: rtranclp_induct)
  case base
  then show ?case by (simp add: initial_def)
next
  case (step s s')
  from step.hyps(2) step.IH show ?case
    by (cases rule: step.cases) auto
qed

lemma sum_delivered_update:
  assumes "finite S" and "a \<in> S"
  shows "(\<Sum>x\<in>S. delivered (c x) ((w(a := v)) x))
          = delivered (c a) v + (\<Sum>x\<in>S - {a}. delivered (c x) (w x))"
proof -
  have "(\<Sum>x\<in>S. delivered (c x) ((w(a := v)) x))
          = delivered (c a) ((w(a := v)) a) + (\<Sum>x\<in>S - {a}. delivered (c x) ((w(a := v)) x))"
    using assms by (rule sum.remove)
  also have "(\<Sum>x\<in>S - {a}. delivered (c x) ((w(a := v)) x)) = (\<Sum>x\<in>S - {a}. delivered (c x) (w x))"
    by (rule sum.cong) auto
  finally show ?thesis by simp
qed

lemma sum_delivered_split:
  assumes "finite S" and "a \<in> S"
  shows "(\<Sum>x\<in>S. delivered (c x) (w x))
          = delivered (c a) (w a) + (\<Sum>x\<in>S - {a}. delivered (c x) (w x))"
  using assms by (rule sum.remove)

lemma printed_delivered:
  assumes "rtranclp (step c n) initial s"
  shows "mset (printed s) = (\<Sum>sz\<in>{4..n}. delivered (c sz) (workers s sz))"
  using assms
proof (induction rule: rtranclp_induct)
  case base
  then show ?case by (simp add: initial_def)
next
  case (step s s')
  note facts = workers_facts[OF step.hyps(1)]
  have inS: "sz \<in> {4..n}" if "workers s sz \<noteq> Running" for sz
    using facts that by (cases "4 \<le> sz \<and> sz \<le> n") auto
  from step.hyps(2) show ?case
  proof (cases rule: step.cases)
    case (computed sz r)
    then have "sz \<in> {4..n}" by simp
    from sum_delivered_update[OF _ this, of c "workers s" "Sending r"]
      sum_delivered_split[OF _ this, of c "workers s"]
    show ?thesis using step.IH computed by simp
  next
    case (panicked sz e)
    then have "sz \<in> {4..n}" by simp
    from sum_delivered_update[OF _ this, of c "workers s" "Deferred True"]
      sum_delivered_split[OF _ this, of c "workers s"]
    show ?thesis using step.IH panicked by simp
  next
    case (received sz r)
    then have "sz \<in> {4..n}" using inS by simp
    moreover have "c sz = Inr r" using facts received by blast
    ultimately show ?thesis
      using sum_delivered_update[of "{4..n}" sz c "workers s" "Deferred False"]
        sum_delivered_split[of "{4..n}" sz c "workers s"] step.IH received
      by simp
  next
    case (signalled sz p)
    then have "sz \<in> {4..n}" using inS by simp
    moreover have "delivered (c sz) (if p then Panicked else Returned)
        = delivered (c sz) (Deferred p)"
      using facts signalled(4) by (cases p; cases "c sz") auto
    ultimately show ?thesis
      using sum_delivered_update[of "{4..n}" sz c "workers s" "if p then Panicked else Returned"]
        sum_delivered_split[of "{4..n}" sz c "workers s"] step.IH signalled
      by simp
  qed (use step.IH in auto)
qed

lemma ended_all_finished:
  assumes "rtranclp (step c n) initial s" and "rangeEnded s" and "4 \<le> sz" and "sz \<le> n"
  shows "finished (workers s sz)"
proof -
  let ?F = "{x \<in> {4..n}. finished (workers s x)}"
  from closed_facts[OF assms(1)] assms(2) have "doneReceived s = sizeCount n" by simp
  with finished_count[OF assms(1)] have "card ?F = sizeCount n" by simp
  moreover have "card {4..n} = sizeCount n" by (simp add: sizeCount_def)
  ultimately have c: "card ?F = card {4..n}" by simp
  have sub: "?F \<subseteq> {4..n}" by auto
  have "finite {4..n}" by simp
  from card_subset_eq[OF this sub c] have "{4..n} \<subseteq> ?F" by (rule equalityD2)
  moreover have "sz \<in> {4..n}" using assms(3,4) by simp
  ultimately have "sz \<in> ?F" by (rule subsetD)
  then show ?thesis by (rule CollectE) (erule conjE)
qed


lemma example_mid_run:
  "rtranclp (step (sizeWorker (constRegression (FVal 0)) [FVal 1, FVal 1, FVal 1, FVal 1, FVal 1]
                     exampleTable 5) 5) initial exampleMid"
proof -
  let ?c = "sizeWorker (constRegression (FVal 0)) [FVal 1, FVal 1, FVal 1, FVal 1, FVal 1]
              exampleTable 5"
  define s1 where "s1 = initial\<lparr>workers := (workers initial)(4 := Sending exampleBest4)\<rparr>"
  have a: "step ?c 5 initial s1"
    unfolding s1_def
    by (rule step.computed) (simp_all add: initial_def exampleTable_worker4 exampleBest4_def)
  have "step ?c 5 s1 (s1\<lparr>workers := (workers s1)(4 := Deferred False),
                              printed := printed s1 @ [exampleBest4]\<rparr>)"
    by (rule step.received) (simp_all add: s1_def initial_def)
  moreover have "s1\<lparr>workers := (workers s1)(4 := Deferred False),
                      printed := printed s1 @ [exampleBest4]\<rparr> = exampleMid"
    by (simp add: s1_def initial_def exampleMid_def)
  ultimately have b: "step ?c 5 s1 exampleMid" by simp
  from a b show ?thesis by (meson rtranclp.rtrancl_into_rtrancl rtranclp.rtrancl_refl)
qed

lemma example_end_run:
  "rtranclp (step (sizeWorker (constRegression (FVal 0)) [FVal 1, FVal 1, FVal 1, FVal 1, FVal 1]
                     exampleTable 5) 5) initial exampleEnd"
proof -
  let ?c = "sizeWorker (constRegression (FVal 0)) [FVal 1, FVal 1, FVal 1, FVal 1, FVal 1]
              exampleTable 5"
  note reach = rtranclp.rtrancl_into_rtrancl
  define s3 where "s3 = exampleMid\<lparr>workers := (workers exampleMid)(5 := Sending exampleBest5)\<rparr>"
  define s4 where "s4 = s3\<lparr>workers := (workers s3)(5 := Deferred False),
                            printed := printed s3 @ [exampleBest5]\<rparr>"
  define s5 where "s5 = s4\<lparr>workers := (workers s4)(4 := (if False then Panicked else Returned)),
                            doneReceived := Suc (doneReceived s4)\<rparr>"
  define s6 where "s6 = s5\<lparr>workers := (workers s5)(5 := (if False then Panicked else Returned)),
                            doneReceived := Suc (doneReceived s5)\<rparr>"
  define s7 where "s7 = s6\<lparr>resultsClosed := True\<rparr>"
  define s8 where "s8 = s7\<lparr>rangeEnded := True\<rparr>"
  have "step ?c 5 exampleMid s3"
    unfolding s3_def
    by (rule step.computed) (simp_all add: exampleMid_def exampleTable_worker5 exampleBest5_def)
  from reach[OF example_mid_run this] have r3: "rtranclp (step ?c 5) initial s3" .
  have "step ?c 5 s3 s4"
    unfolding s4_def by (rule step.received) (simp_all add: s3_def exampleMid_def)
  from reach[OF r3 this] have r4: "rtranclp (step ?c 5) initial s4" .
  have "step ?c 5 s4 s5"
    unfolding s5_def
    by (rule step.signalled) (simp_all add: s4_def s3_def exampleMid_def sizeCount_def)
  from reach[OF r4 this] have r5: "rtranclp (step ?c 5) initial s5" .
  have "step ?c 5 s5 s6"
    unfolding s6_def
    by (rule step.signalled) (simp_all add: s5_def s4_def s3_def exampleMid_def sizeCount_def)
  from reach[OF r5 this] have r6: "rtranclp (step ?c 5) initial s6" .
  have "step ?c 5 s6 s7"
    unfolding s7_def
    by (rule step.closed) (simp_all add: s6_def s5_def s4_def s3_def exampleMid_def sizeCount_def)
  from reach[OF r6 this] have r7: "rtranclp (step ?c 5) initial s7" .
  have "step ?c 5 s7 s8"
    unfolding s8_def
    by (rule step.ended) (simp_all add: s7_def s6_def s5_def s4_def s3_def exampleMid_def)
  from reach[OF r7 this] have r8: "rtranclp (step ?c 5) initial s8" .
  have "s8 = exampleEnd"
    by (simp add: s8_def s7_def s6_def s5_def s4_def s3_def exampleMid_def exampleEnd_def fun_eq_iff)
  with r8 show ?thesis by simp
qed





text \<open>
  C6, as stated: no result is observable to the coordinator before every goroutine has
  completed. On \<open>exampleTable\<close> the program reaches a state in which the value of the
  goroutine of size 4 has been received and printed while the goroutine of size 5 is
  still computing, and the goroutine of size 4 itself has not yet passed its deferred
  \<open>done\<close> send.
\<close>

theorem streaming_counterexample:
  "reachable (constRegression (FVal 0)) exampleTable exampleMid
   \<and> printed exampleMid = [exampleBest4]
   \<and> workers exampleMid 5 = Running
   \<and> \<not> finished (workers exampleMid 4)"
  using example_mid_run
  by (simp add: reachable_def exampleTable_response exampleMid_def)

text \<open>
  C6, amended. A result can be received and printed by the coordinator while other
  goroutines are still running; only the end of the coordinator's loop is a barrier:
  when the loop over \<open>results\<close> has ended, the channel has been closed and every
  goroutine has finished (its \<open>done\<close> signal has been received).
\<close>

theorem range_end_is_barrier:
  assumes "reachable lib data s" and "rangeEnded s"
    and "responseColumn data = Inr (y, numExplanatory)"
    and "4 \<le> sz" and "sz \<le> numExplanatory"
  shows "finished (workers s sz) \<and> resultsClosed s"
proof -
  from assms(1,3) have r: "rtranclp (step (sizeWorker lib y data numExplanatory) numExplanatory) initial s"
    by (simp add: reachable_def)
  from ended_all_finished[OF r assms(2,4,5)] closed_facts[OF r] assms(2) show ?thesis by simp
qed

theorem range_end_is_barrier_witness:
  "reachable (constRegression (FVal 0)) exampleTable exampleEnd
   \<and> rangeEnded exampleEnd
   \<and> finished (workers exampleEnd 5)
   \<and> resultsClosed exampleEnd"
proof -
  have r: "reachable (constRegression (FVal 0)) exampleTable exampleEnd"
    using example_end_run by (simp add: reachable_def exampleTable_response)
  have e: "rangeEnded exampleEnd" by (simp add: exampleEnd_def)
  from range_end_is_barrier[OF r e exampleTable_response, of 5] r e show ?thesis by simp
qed

text \<open>
  C3, as stated: after the workers have completed, the coordinator computes and reports
  a single best result, the one of minimum AIC over the per-size results. On
  \<open>exampleTable\<close> the program ends having printed the two per-size results, the second
  with the larger AIC, and nothing else.
\<close>

theorem no_best_counterexample:
  "reachable (constRegression (FVal 0)) exampleTable exampleEnd
   \<and> rangeEnded exampleEnd
   \<and> printed exampleEnd = [exampleBest4, exampleBest5]
   \<and> flt (AIC exampleBest4) (AIC exampleBest5)"
  using example_end_run
  by (simp add: reachable_def exampleTable_response exampleEnd_def exampleBest4_def exampleBest5_def)

text \<open>
  C3, amended. The coordinator reports every per-size result it receives and computes no
  overall best: when its loop has ended (and no goroutine has panicked), what it has
  printed is exactly the per-size results, each once, one per subset size from 4 to
  \<open>numExplanatory\<close>.
\<close>

theorem report_is_per_size_results:
  assumes "reachable lib data s" and "rangeEnded s"
    and "responseColumn data = Inr (y, numExplanatory)"
    and "\<forall>sz \<in> {4..numExplanatory}. sizeWorker lib y data numExplanatory sz = Inr (res sz)"
  shows "mset (printed s) = (\<Sum>sz\<in>{4..numExplanatory}. {#res sz#})"
proof -
  let ?c = "sizeWorker lib y data numExplanatory"
  from assms(1,3) have r: "rtranclp (step ?c numExplanatory) initial s"
    by (simp add: reachable_def)
  have "delivered (?c sz) (workers s sz) = {#res sz#}" if "sz \<in> {4..numExplanatory}" for sz
  proof -
    from that have "finished (workers s sz)"
      using ended_all_finished[OF r assms(2)] by simp
    moreover have "?c sz = Inr (res sz)" using assms(4) that by blast
    ultimately show ?thesis
      using workers_facts[OF r] by (cases "workers s sz") auto
  qed
  then have "(\<Sum>sz\<in>{4..numExplanatory}. delivered (?c sz) (workers s sz))
      = (\<Sum>sz\<in>{4..numExplanatory}. {#res sz#})"
    by (intro sum.cong) auto
  with printed_delivered[OF r] show ?thesis by simp
qed

theorem report_is_per_size_results_witness:
  "reachable (constRegression (FVal 0)) exampleTable exampleEnd
   \<and> rangeEnded exampleEnd
   \<and> mset (printed exampleEnd)
       = (\<Sum>sz\<in>{4..5::int}. {#if sz = 4 then exampleBest4 else exampleBest5#})"
proof -
  let ?lib = "constRegression (FVal 0)"
  let ?y = "[FVal 1, FVal 1, FVal 1, FVal 1, FVal 1]"
  have r: "reachable ?lib exampleTable exampleEnd"
    using example_end_run by (simp add: reachable_def exampleTable_response)
  have e: "rangeEnded exampleEnd" by (simp add: exampleEnd_def)
  have w: "\<forall>sz \<in> {4..5}. sizeWorker ?lib ?y exampleTable 5 sz
              = Inr (if sz = 4 then exampleBest4 else exampleBest5)"
  proof
    fix sz :: int
    assume "sz \<in> {4..5}"
    then have "sz = 4 \<or> sz = 5" by auto
    then show "sizeWorker ?lib ?y exampleTable 5 sz
                 = Inr (if sz = 4 then exampleBest4 else exampleBest5)"
      using exampleTable_worker4 exampleTable_worker5 by auto
  qed
  from report_is_per_size_results[OF r e exampleTable_response w] r e show ?thesis by simp
qed



end
